theory Spec2Isabelle
  imports Main "HOL-Library.Word" "HOL-Library.Sublist" "HOL-Library.Multiset"
begin

section \<open>Go values: errors, panics, bytes\<close>

text \<open>
  A Go \<open>error\<close> is compared by identity against the package's sentinels
  (\<open>err == errKeyNotFound\<close>, \<open>err == stdio.EOF\<close>). The sentinels are constructors of
  their own; every other error value (made by \<open>errors.New\<close>, \<open>errors.Errorf\<close>, or
  by a backend) is \<open>ErrorNew\<close> with its message, so a backend error whose text happens
  to be "Key not found" is still different from the sentinel.
\<close>

datatype error = EOF | errKeyNotFound | errKeyAlreadyExists | ErrorNew string

fun Error :: "error \<Rightarrow> string" where
  "Error EOF = ''EOF''"
| "Error errKeyNotFound = ''Key not found''"
| "Error errKeyAlreadyExists = ''Key already exists''"
| "Error (ErrorNew msg) = msg"

text \<open>A call either returns its results or panics with a message.\<close>

datatype 'a outcome = Returns 'a | Panics string

type_synonym byte = "8 word"

section \<open>XDR ledger entries\<close>

text \<open>
  The \<open>xdr\<close> package is not among the sources verified here. The records below carry
  the fields that \<open>Verify\<close> and \<open>transformEntry\<close> read or write; the arms of the
  union that they never open are opaque.
\<close>

typedecl TrustLineEntry
typedecl OfferEntry
typedecl DataEntry
typedecl LedgerKey

type_synonym LedgerEntryType = "32 word"

definition LedgerEntryTypeAccount :: LedgerEntryType where
  "LedgerEntryTypeAccount = 0"

definition LedgerEntryTypeTrustline :: LedgerEntryType where
  "LedgerEntryTypeTrustline = 1"

definition LedgerEntryTypeOffer :: LedgerEntryType where
  "LedgerEntryTypeOffer = 2"

definition LedgerEntryTypeData :: LedgerEntryType where
  "LedgerEntryTypeData = 3"

record Signer =
  Key :: "byte list"
  Weight :: "32 word"

record AccountEntry =
  AccountId :: "byte list"
  Balance :: "64 word"
  SeqNum :: "64 word"
  NumSubEntries :: "32 word"
  InflationDest :: "byte list option"
  Flags :: "32 word"
  HomeDomain :: string
  Thresholds :: "byte \<times> byte \<times> byte \<times> byte"
  Signers :: "Signer list"
  AccountExt :: "32 word"

record LedgerEntryData =
  Type :: LedgerEntryType
  Account :: "AccountEntry option"
  TrustLine :: "TrustLineEntry option"
  Offer :: "OfferEntry option"
  DataArm :: "DataEntry option"

record LedgerEntry =
  LastModifiedLedgerSeq :: "32 word"
  Data :: LedgerEntryData
  Ext :: "32 word"

text \<open>The zero value \<open>xdr.LedgerEntry{}\<close>.\<close>

definition LedgerEntry_zero :: LedgerEntry where
  "LedgerEntry_zero =
     \<lparr>LastModifiedLedgerSeq = 0,
      Data = \<lparr>Type = 0, Account = None, TrustLine = None, Offer = None, DataArm = None\<rparr>,
      Ext = 0\<rparr>"

datatype LedgerEntryChange =
    LedgerEntryCreated LedgerEntry
  | LedgerEntryUpdated LedgerEntry
  | LedgerEntryRemoved LedgerKey
  | LedgerEntryState LedgerEntry

text \<open>\<open>MustState\<close> of the generated XDR code panics when the State arm is not set.\<close>

fun MustState :: "LedgerEntryChange \<Rightarrow> LedgerEntry outcome" where
  "MustState (LedgerEntryState entry) = Returns entry"
| "MustState _ = Panics ''arm State is not set''"

text \<open>\<open>MasterKeyWeight\<close> is \<open>Thresholds[0]\<close> of the fixed four-byte array.\<close>

fun MasterKeyWeight :: "AccountEntry \<Rightarrow> byte" where
  "MasterKeyWeight a = (case Thresholds a of (t0, t1, t2, t3) \<Rightarrow> t0)"

text \<open>
  The functions of other packages that \<open>StateVerifier\<close> and \<open>transformEntry\<close> call
  are parameters:
  \<open>MarshalBinary\<close> (the canonical XDR encoding, returning the bytes written so far and
  an error), \<open>sha256.Sum256\<close>, \<open>base64.StdEncoding.EncodeToString\<close> and
  \<open>xdr.SortSignersByKey\<close>. Every theorem below holds for all of them.
\<close>

record externals =
  MarshalBinary :: "LedgerEntry \<Rightarrow> byte list \<times> error option"
  Sum256 :: "byte list \<Rightarrow> byte list"
  EncodeToString :: "byte list \<Rightarrow> string"
  SortSignersByKey :: "Signer list \<Rightarrow> Signer list"

section \<open>The temporary set\<close>

text \<open>
  \<open>StateVerifyTempSet\<close> is an interface: a table of five methods over the state
  \<open>'s\<close> of the object behind it. Each method takes the state and returns its results
  with the new state.
\<close>

record 's StateVerifyTempSet =
  ts_Open :: "'s \<Rightarrow> (error option \<times> 's) outcome"
  ts_Add :: "string \<Rightarrow> 's \<Rightarrow> (error option \<times> 's) outcome"
  ts_Remove :: "string \<Rightarrow> 's \<Rightarrow> (error option \<times> 's) outcome"
  ts_IsEmpty :: "'s \<Rightarrow> ((bool \<times> error option) \<times> 's) outcome"
  ts_Close :: "'s \<Rightarrow> (error option \<times> 's) outcome"

subsection \<open>MemoryStateVerifyTempSet\<close>

text \<open>
  The struct holds one Go map; \<open>None\<close> is the nil map of a set that was never opened or
  was closed. Reading a nil map finds nothing, \<open>len\<close> of it is 0, \<open>delete\<close> on it does
  nothing, and assigning into it panics.
\<close>

record MemoryStateVerifyTempSet =
  m :: "(string \<rightharpoonup> bool) option"

definition Memory_Open :: "MemoryStateVerifyTempSet \<Rightarrow> (error option \<times> MemoryStateVerifyTempSet) outcome" where
  "Memory_Open s = Returns (None, s\<lparr>m := Some Map.empty\<rparr>)"

definition Memory_Add :: "string \<Rightarrow> MemoryStateVerifyTempSet \<Rightarrow> (error option \<times> MemoryStateVerifyTempSet) outcome" where
  "Memory_Add key s =
     (case m s of
        None \<Rightarrow> Panics ''assignment to entry in nil map''
      | Some mp \<Rightarrow>
          if mp key \<noteq> None then Returns (Some errKeyAlreadyExists, s)
          else Returns (None, s\<lparr>m := Some (mp(key \<mapsto> True))\<rparr>))"

definition Memory_Remove :: "string \<Rightarrow> MemoryStateVerifyTempSet \<Rightarrow> (error option \<times> MemoryStateVerifyTempSet) outcome" where
  "Memory_Remove key s =
     (case m s of
        None \<Rightarrow> Returns (Some errKeyNotFound, s)
      | Some mp \<Rightarrow>
          if mp key = None then Returns (Some errKeyNotFound, s)
          else Returns (None, s\<lparr>m := Some (mp(key := None))\<rparr>))"

definition Memory_IsEmpty :: "MemoryStateVerifyTempSet \<Rightarrow> ((bool \<times> error option) \<times> MemoryStateVerifyTempSet) outcome" where
  "Memory_IsEmpty s =
     Returns (((case m s of None \<Rightarrow> True | Some mp \<Rightarrow> dom mp = {}), None), s)"

definition Memory_Close :: "MemoryStateVerifyTempSet \<Rightarrow> (error option \<times> MemoryStateVerifyTempSet) outcome" where
  "Memory_Close s = Returns (None, s\<lparr>m := None\<rparr>)"

definition MemoryTempSet :: "MemoryStateVerifyTempSet StateVerifyTempSet" where
  "MemoryTempSet =
     \<lparr>ts_Open = Memory_Open, ts_Add = Memory_Add, ts_Remove = Memory_Remove,
      ts_IsEmpty = Memory_IsEmpty, ts_Close = Memory_Close\<rparr>"

section \<open>The state reader\<close>

text \<open>
  Modelled from the spec: \<open>io.SingleLedgerStateReader\<close> and its \<open>Read\<close> method are
  not among the sources verified here. The spec describes "an externally supplied pull-based
  reader yielding StateRecord values in an unspecified but exhaustive order, terminated
  by an explicit end-of-stream indication; any other read failure is surfaced as an
  infrastructure error". The reader's state is the list of results its future \<open>Read\<close>
  calls give, each one a change or an error; when the list is used up \<open>Read\<close> returns
  \<open>EOF\<close>.
\<close>

datatype read_result = ReadOk LedgerEntryChange | ReadErr error

fun Read :: "read_result list \<Rightarrow> read_result \<times> read_result list" where
  "Read [] = (ReadErr EOF, [])"
| "Read (r # rs) = (r, rs)"

section \<open>StateVerifier\<close>

text \<open>
  The struct with the objects its pointers reach: the reader's state, the method table
  and the state of the temporary set, the transform function (\<open>None\<close> for nil), and the
  unexported \<open>stateCorruptedError\<close>.
\<close>

record 's StateVerifier =
  StateReader :: "read_result list"
  TempSet :: "'s StateVerifyTempSet"
  TempSetObj :: 's
  TransformFunction :: "(LedgerEntry \<Rightarrow> (bool \<times> LedgerEntry) outcome) option"
  stateCorruptedError :: "error option"

definition Open :: "'s StateVerifier \<Rightarrow> (error option \<times> 's StateVerifier) outcome" where
  "Open v =
     (case ts_Open (TempSet v) (TempSetObj v) of
        Panics p \<Rightarrow> Panics p
      | Returns (err, s') \<Rightarrow> Returns (err, v\<lparr>TempSetObj := s'\<rparr>))"

definition Close :: "'s StateVerifier \<Rightarrow> (error option \<times> 's StateVerifier) outcome" where
  "Close v =
     (case ts_Close (TempSet v) (TempSetObj v) of
        Panics p \<Rightarrow> Panics p
      | Returns (err, s') \<Rightarrow> Returns (err, v\<lparr>TempSetObj := s'\<rparr>))"

text \<open>
  \<open>entryToKey\<close> has the verifier as its receiver and never touches it: the state it
  returns is the state it was given.
\<close>

definition entryToKey :: "externals \<Rightarrow> 's StateVerifier \<Rightarrow> LedgerEntry \<Rightarrow> (string \<times> error option) \<times> 's StateVerifier" where
  "entryToKey ext v entry =
     (case MarshalBinary ext entry of
        (xdrEncoded, Some err) \<Rightarrow> (([], Some err), v)
      | (xdrEncoded, None) \<Rightarrow>
          ((EncodeToString ext (Sum256 ext xdrEncoded), None), v))"

definition Add :: "externals \<Rightarrow> 's StateVerifier \<Rightarrow> LedgerEntry \<Rightarrow> (error option \<times> 's StateVerifier) outcome" where
  "Add ext v entry =
     (case entryToKey ext v entry of
        ((key, Some err), v1) \<Rightarrow> Returns (Some err, v1)
      | ((key, None), v1) \<Rightarrow>
          (case ts_Add (TempSet v1) key (TempSetObj v1) of
             Panics p \<Rightarrow> Panics p
           | Returns (err, s') \<Rightarrow> Returns (err, v1\<lparr>TempSetObj := s'\<rparr>)))"

text \<open>Lines 111 to 117 of \<open>Verify\<close>: a nil transform function ignores nothing.\<close>

definition apply_transform :: "'s StateVerifier \<Rightarrow> LedgerEntry \<Rightarrow> (bool \<times> LedgerEntry) outcome" where
  "apply_transform v entry =
     (case TransformFunction v of
        None \<Rightarrow> Returns (False, entry)
      | Some f \<Rightarrow> f entry)"

text \<open>The message of the error built by \<open>errors.Errorf\<close> at lines 131 to 136.\<close>

definition corrupted_message :: "string \<Rightarrow> string \<Rightarrow> string \<Rightarrow> string" where
  "corrupted_message preTransform transformed key =
     ''Could not find entry '' @ preTransform @ '' (transformed = '' @ transformed
       @ '', key = '' @ key @ '') in added entries''"

text \<open>Lines 143 to 149: what \<open>Verify\<close> does once the loop has been left by \<open>break\<close>.\<close>

definition verify_after_loop :: "'s StateVerifier \<Rightarrow> ((bool \<times> error option) \<times> 's StateVerifier) outcome" where
  "verify_after_loop v =
     (case ts_IsEmpty (TempSet v) (TempSetObj v) of
        Panics p \<Rightarrow> Panics p
      | Returns ((isEmpty, err), s') \<Rightarrow>
          (case err of
             Some e \<Rightarrow>
               Returns ((True, Some e),
                 v\<lparr>TempSetObj := s',
                   stateCorruptedError :=
                     Some (ErrorNew ''Some entries added in Add has not been found in history archives'')\<rparr>)
           | None \<Rightarrow> Returns ((isEmpty, None), v\<lparr>TempSetObj := s'\<rparr>)))"

text \<open>
  The \<open>for\<close> loop of \<open>Verify\<close>, by recursion on the reader's state: each round takes
  what \<open>Read\<close> gives (the first equation is \<open>Read\<close> on a used-up reader, which gives
  \<open>EOF\<close>). The reader's state is written back into the verifier where the loop is left.
\<close>

fun verify_loop :: "externals \<Rightarrow> read_result list \<Rightarrow> 's StateVerifier \<Rightarrow> ((bool \<times> error option) \<times> 's StateVerifier) outcome" where
  "verify_loop ext [] v = verify_after_loop (v\<lparr>StateReader := []\<rparr>)"
| "verify_loop ext (ReadErr err # rs) v =
     (if err = EOF then verify_after_loop (v\<lparr>StateReader := rs\<rparr>)
      else Returns ((True, Some err), v\<lparr>StateReader := rs\<rparr>))"
| "verify_loop ext (ReadOk entryChange # rs) v =
     (case MustState entryChange of
        Panics p \<Rightarrow> Panics p
      | Returns preTransformEntry \<Rightarrow>
          (case apply_transform v preTransformEntry of
             Panics p \<Rightarrow> Panics p
           | Returns (ignore, entry) \<Rightarrow>
               if ignore then verify_loop ext rs v
               else
                 (case entryToKey ext v entry of
                    ((key, Some err), v1) \<Rightarrow> Returns ((True, Some err), v1\<lparr>StateReader := rs\<rparr>)
                  | ((key, None), v1) \<Rightarrow>
                      (case ts_Remove (TempSet v1) key (TempSetObj v1) of
                         Panics p \<Rightarrow> Panics p
                       | Returns (None, s') \<Rightarrow> verify_loop ext rs (v1\<lparr>TempSetObj := s'\<rparr>)
                       | Returns (Some err, s') \<Rightarrow>
                           if err = errKeyNotFound then
                             Returns ((False, None),
                               v1\<lparr>StateReader := rs, TempSetObj := s',
                                  stateCorruptedError :=
                                    Some (ErrorNew (corrupted_message
                                      (EncodeToString ext (fst (MarshalBinary ext preTransformEntry)))
                                      (EncodeToString ext (fst (MarshalBinary ext entry)))
                                      key))\<rparr>)
                           else Returns ((True, Some err), v1\<lparr>StateReader := rs, TempSetObj := s'\<rparr>)))))"

definition Verify :: "externals \<Rightarrow> 's StateVerifier \<Rightarrow> ((bool \<times> error option) \<times> 's StateVerifier) outcome" where
  "Verify ext v = verify_loop ext (StateReader v) v"

definition StateError :: "'s StateVerifier \<Rightarrow> error option" where
  "StateError v = stateCorruptedError v"

section \<open>The orchestrator's transform function\<close>

definition transformEntry :: "externals \<Rightarrow> LedgerEntry \<Rightarrow> (bool \<times> LedgerEntry) outcome" where
  "transformEntry ext entry =
     (if Type (Data entry) = LedgerEntryTypeAccount then
        (case Account (Data entry) of
           None \<Rightarrow> Panics ''invalid memory address or nil pointer dereference''
         | Some accountEntry \<Rightarrow>
             if MasterKeyWeight accountEntry = 0 \<and> length (Signers accountEntry) = 0
             then Returns (True, LedgerEntry_zero)
             else Returns (False,
               \<lparr>LastModifiedLedgerSeq = 0,
                Data = \<lparr>Type = LedgerEntryTypeAccount,
                        Account = Some
                          \<lparr>AccountId = AccountId accountEntry, Balance = 0, SeqNum = 0,
                           NumSubEntries = 0, InflationDest = None, Flags = 0,
                           HomeDomain = [],
                           Thresholds = (fst (Thresholds accountEntry), 0, 0, 0),
                           Signers = SortSignersByKey ext (Signers accountEntry),
                           AccountExt = 0\<rparr>,
                        TrustLine = None, Offer = None, DataArm = None\<rparr>,
                Ext = 0\<rparr>))
      else if Type (Data entry) = LedgerEntryTypeTrustline then Returns (True, LedgerEntry_zero)
      else if Type (Data entry) = LedgerEntryTypeOffer then Returns (True, LedgerEntry_zero)
      else if Type (Data entry) = LedgerEntryTypeData then Returns (True, LedgerEntry_zero)
      else Panics ''Invalid type'')"

section \<open>Callers and observations used to state the properties\<close>

text \<open>
  The local-record producer calls \<open>Add\<close> once per record and gives up at the first
  error, as \<open>addAccountsToStateVerifier\<close> does.
\<close>

fun add_all :: "externals \<Rightarrow> 's StateVerifier \<Rightarrow> LedgerEntry list \<Rightarrow> (error option \<times> 's StateVerifier) outcome" where
  "add_all ext v [] = Returns (None, v)"
| "add_all ext v (entry # entries) =
     (case Add ext v entry of
        Panics p \<Rightarrow> Panics p
      | Returns (Some err, v') \<Rightarrow> Returns (Some err, v')
      | Returns (None, v') \<Rightarrow> add_all ext v' entries)"

text \<open>The fingerprints of a list of records, as \<open>entryToKey\<close> computes them.\<close>

definition local_keys :: "externals \<Rightarrow> 's StateVerifier \<Rightarrow> LedgerEntry list \<Rightarrow> string list" where
  "local_keys ext v entries = map (\<lambda>entry. fst (fst (entryToKey ext v entry))) entries"

text \<open>
  The fingerprints of the records of an authoritative stream after the transform
  function, with the ignored records dropped; \<open>None\<close> when the transform function
  panics on a record or a transformed record cannot be encoded.
\<close>

fun stream_keys :: "externals \<Rightarrow> 's StateVerifier \<Rightarrow> LedgerEntry list \<Rightarrow> string list option" where
  "stream_keys ext v [] = Some []"
| "stream_keys ext v (e # es) =
     (case apply_transform v e of
        Panics p \<Rightarrow> None
      | Returns (ignore, entry) \<Rightarrow>
          if ignore then stream_keys ext v es
          else
            (case fst (entryToKey ext v entry) of
               (key, Some err) \<Rightarrow> None
             | (key, None) \<Rightarrow> map_option ((#) key) (stream_keys ext v es)))"

text \<open>A reader that delivers the given records, each as a State change, then \<open>EOF\<close>.\<close>

definition reader_of :: "LedgerEntry list \<Rightarrow> read_result list" where
  "reader_of entries = map (\<lambda>entry. ReadOk (LedgerEntryState entry)) entries"

text \<open>
  What a caller sees of a finished \<open>Verify\<close> apart from the reader's position: the two
  results, the temporary set and the stored diagnosis.
\<close>

fun observed :: "((bool \<times> error option) \<times> 's StateVerifier) outcome \<Rightarrow> ((bool \<times> error option) \<times> 's \<times> error option) outcome" where
  "observed (Panics p) = Panics p"
| "observed (Returns (res, v)) = Returns (res, TempSetObj v, stateCorruptedError v)"

text \<open>Calls of the in-memory set one after the other, whatever error each returns.\<close>

fun memory_adds :: "string list \<Rightarrow> MemoryStateVerifyTempSet \<Rightarrow> MemoryStateVerifyTempSet outcome" where
  "memory_adds [] s = Returns s"
| "memory_adds (key # keys) s =
     (case Memory_Add key s of Panics p \<Rightarrow> Panics p | Returns (err, s') \<Rightarrow> memory_adds keys s')"

fun memory_removes :: "string list \<Rightarrow> MemoryStateVerifyTempSet \<Rightarrow> MemoryStateVerifyTempSet outcome" where
  "memory_removes [] s = Returns s"
| "memory_removes (key # keys) s =
     (case Memory_Remove key s of Panics p \<Rightarrow> Panics p | Returns (err, s') \<Rightarrow> memory_removes keys s')"

subsection \<open>Concrete inputs\<close>

text \<open>
  An instance of the parameters for evaluating the definitions at concrete inputs: an
  entry is encoded by the bytes of its account id (an entry without an account cannot be
  encoded), and digest and text encoding are stand-ins that keep different inputs apart.
\<close>

definition toy_externals :: externals where
  "toy_externals =
     \<lparr>MarshalBinary = (\<lambda>entry. case Account (Data entry) of
                          None \<Rightarrow> ([], Some (ErrorNew ''xdr: nil account''))
                        | Some a \<Rightarrow> (AccountId a, None)),
      Sum256 = (\<lambda>bytes. bytes),
      EncodeToString = map (\<lambda>b. if b = 1 then CHR ''A'' else if b = 2 then CHR ''B''
                                else if b = 3 then CHR ''C'' else CHR ''X''),
      SortSignersByKey = (\<lambda>signers. signers)\<rparr>"

definition account_entry :: "byte list \<Rightarrow> byte \<Rightarrow> LedgerEntry" where
  "account_entry accountId masterWeight =
     \<lparr>LastModifiedLedgerSeq = 7,
      Data = \<lparr>Type = LedgerEntryTypeAccount,
              Account = Some
                \<lparr>AccountId = accountId, Balance = 100, SeqNum = 1, NumSubEntries = 0,
                 InflationDest = None, Flags = 0, HomeDomain = [],
                 Thresholds = (masterWeight, 0, 0, 0), Signers = [], AccountExt = 0\<rparr>,
              TrustLine = None, Offer = None, DataArm = None\<rparr>,
      Ext = 0\<rparr>"

definition fresh_verifier :: "read_result list \<Rightarrow> MemoryStateVerifyTempSet StateVerifier" where
  "fresh_verifier reader =
     \<lparr>StateReader = reader, TempSet = MemoryTempSet, TempSetObj = \<lparr>m = None\<rparr>,
      TransformFunction = Some (transformEntry toy_externals), stateCorruptedError = None\<rparr>"

text \<open>The verifier after \<open>Open\<close> and the successful \<open>Add\<close> of entries with the given keys.\<close>

definition loaded_verifier :: "read_result list \<Rightarrow> string list \<Rightarrow> MemoryStateVerifyTempSet StateVerifier" where
  "loaded_verifier reader keys =
     (fresh_verifier reader)\<lparr>TempSetObj := \<lparr>m = Some (foldl (\<lambda>mp key. mp(key \<mapsto> True)) Map.empty keys)\<rparr>\<rparr>"

text \<open>
  A temporary set over a backend that has gone away: every call returns the backend's
  error.
\<close>

definition backend_error :: error where
  "backend_error = ErrorNew ''connection reset by peer''"

definition FailingTempSet :: "unit StateVerifyTempSet" where
  "FailingTempSet =
     \<lparr>ts_Open = (\<lambda>s. Returns (Some backend_error, s)),
      ts_Add = (\<lambda>key s. Returns (Some backend_error, s)),
      ts_Remove = (\<lambda>key s. Returns (Some backend_error, s)),
      ts_IsEmpty = (\<lambda>s. Returns ((False, Some backend_error), s)),
      ts_Close = (\<lambda>s. Returns (Some backend_error, s))\<rparr>"

definition failing_verifier :: "unit StateVerifier" where
  "failing_verifier =
     \<lparr>StateReader = [], TempSet = FailingTempSet, TempSetObj = (),
      TransformFunction = None, stateCorruptedError = None\<rparr>"

section \<open>Properties\<close>

subsection \<open>Auxiliary facts\<close>

lemmas toy_defs = toy_externals_def account_entry_def fresh_verifier_def loaded_verifier_def
  MemoryTempSet_def Memory_Open_def Memory_Add_def Memory_Remove_def Memory_IsEmpty_def Memory_Close_def
  Open_def Close_def Add_def entryToKey_def apply_transform_def transformEntry_def
  LedgerEntryTypeAccount_def LedgerEntryTypeTrustline_def LedgerEntryTypeOffer_def LedgerEntryTypeData_def
  LedgerEntry_zero_def reader_of_def local_keys_def Verify_def verify_after_loop_def StateError_def
  corrupted_message_def

text \<open>The loop leaves on what \<open>Read\<close> returns when it returns an error.\<close>

lemma verify_loop_read_error:
  assumes "Read rs = (ReadErr err, rs')"
  shows "verify_loop ext rs v =
     (if err = EOF then verify_after_loop (v\<lparr>StateReader := rs'\<rparr>)
      else Returns ((True, Some err), v\<lparr>StateReader := rs'\<rparr>))"
  using assms by (cases rs) auto

lemma apply_transform_TempSetObj [simp]:
  "apply_transform (v\<lparr>TempSetObj := s\<rparr>) e = apply_transform v e"
  by (simp add: apply_transform_def)

lemma entryToKey_state: "snd (entryToKey ext v e) = v"
  by (simp add: entryToKey_def split: prod.splits option.splits)

lemma entryToKey_TempSetObj:
  "entryToKey ext (v\<lparr>TempSetObj := s\<rparr>) e = (fst (entryToKey ext v e), v\<lparr>TempSetObj := s\<rparr>)"
  by (simp add: entryToKey_def split: prod.splits option.splits)

lemma entryToKey_eq: "entryToKey ext v e = (fst (entryToKey ext v e), v)"
  by (simp add: entryToKey_def split: prod.splits option.splits)

lemma stream_keys_TempSetObj [simp]:
  "stream_keys ext (v\<lparr>TempSetObj := s\<rparr>) es = stream_keys ext v es"
  by (induction es) (simp_all add: entryToKey_TempSetObj split: outcome.splits prod.splits option.splits)

lemma restrict_delete: "(mp(k := None)) |` (- A) = mp |` (- insert k A)"
  by (rule ext) (simp add: restrict_map_def)

lemma memory_obj_eq: "m (s::MemoryStateVerifyTempSet) = x \<Longrightarrow> s = \<lparr>m = x\<rparr>"
  by (cases s) simp

lemma verify_loop_matched_prefix:
  assumes "TempSet v = MemoryTempSet" and "m (TempSetObj v) = Some mp"
    and "stream_keys ext v es = Some ks" and "distinct ks" and "set ks \<subseteq> dom mp"
  shows "verify_loop ext (reader_of es @ rest) v
         = verify_loop ext rest (v\<lparr>TempSetObj := \<lparr>m = Some (mp |` (- set ks))\<rparr>\<rparr>)"
  using assms
proof (induction es arbitrary: v mp ks)
  case Nil
  then have "TempSetObj v = \<lparr>m = Some mp\<rparr>" by (simp add: memory_obj_eq)
  then have "v\<lparr>TempSetObj := \<lparr>m = Some mp\<rparr>\<rparr> = v" by (cases v) simp
  then have "verify_loop ext rest (v\<lparr>TempSetObj := \<lparr>m = Some mp\<rparr>\<rparr>) = verify_loop ext rest v"
    by (rule arg_cong)
  moreover from Nil.prems(3) have "ks = []" by simp
  ultimately show ?case by (simp add: reader_of_def)
next
  case (Cons e es)
  from Cons.prems(3) obtain ignore entry where tr: "apply_transform v e = Returns (ignore, entry)"
    by (auto split: outcome.splits)
  show ?case
  proof (cases ignore)
    case True
    with tr Cons.prems have "stream_keys ext v es = Some ks" by simp
    from Cons.IH [OF Cons.prems(1,2) this Cons.prems(4,5)] tr True
    show ?thesis by (simp add: reader_of_def)
  next
    case False
    with tr Cons.prems(3) obtain key ks' where
      k: "fst (entryToKey ext v entry) = (key, None)"
      and ks': "stream_keys ext v es = Some ks'" and ks: "ks = key # ks'"
      by (auto split: prod.splits option.splits)
    let ?v' = "v\<lparr>TempSetObj := \<lparr>m = Some (mp(key := None))\<rparr>\<rparr>"
    from ks Cons.prems(4,5) have d: "distinct ks'" and sub: "set ks' \<subseteq> dom (mp(key := None))"
      and kin: "mp key \<noteq> None"
      by auto
    have ek: "entryToKey ext v entry = ((key, None), v)"
      using k entryToKey_eq [of ext v entry] by simp
    have rm: "ts_Remove (TempSet v) key (TempSetObj v) = Returns (None, \<lparr>m = Some (mp(key := None))\<rparr>)"
      using Cons.prems(1,2) kin by (simp add: MemoryTempSet_def Memory_Remove_def)
    have step: "verify_loop ext (reader_of (e # es) @ rest) v = verify_loop ext (reader_of es @ rest) ?v'"
      using tr False ek rm by (simp add: reader_of_def)
    have p1: "TempSet ?v' = MemoryTempSet" using Cons.prems(1) by simp
    have p2: "m (TempSetObj ?v') = Some (mp(key := None))" by simp
    have p3: "stream_keys ext ?v' es = Some ks'" using ks' by simp
    have r: "(mp(key := None)) |` (- set ks') = mp |` (- set ks)"
      unfolding ks by (rule ext) (simp add: restrict_map_def)
    have c: "?v'\<lparr>TempSetObj := s\<rparr> = v\<lparr>TempSetObj := s\<rparr>" for s
      by simp
    note step
    also have "verify_loop ext (reader_of es @ rest) ?v'
          = verify_loop ext rest (?v'\<lparr>TempSetObj := \<lparr>m = Some ((mp(key := None)) |` (- set ks'))\<rparr>\<rparr>)"
      by (rule Cons.IH [OF p1 p2 p3 d sub])
    also have "\<dots> = verify_loop ext rest (v\<lparr>TempSetObj := \<lparr>m = Some (mp |` (- set ks))\<rparr>\<rparr>)"
      by (simp only: c r)
    finally show ?thesis .
  qed
qed

lemma local_keys_TempSetObj [simp]:
  "local_keys ext (v\<lparr>TempSetObj := s\<rparr>) es = local_keys ext v es"
  by (simp add: local_keys_def entryToKey_TempSetObj)

lemma Open_memory:
  "TempSet v = MemoryTempSet \<Longrightarrow> Open v = Returns (None, v\<lparr>TempSetObj := \<lparr>m = Some Map.empty\<rparr>\<rparr>)"
  by (simp add: Open_def MemoryTempSet_def Memory_Open_def)

lemma Add_memory:
  assumes "TempSet v = MemoryTempSet" and "m (TempSetObj v) = Some mp"
  shows "Add ext v e =
     (case fst (entryToKey ext v e) of
        (key, Some err) \<Rightarrow> Returns (Some err, v)
      | (key, None) \<Rightarrow>
          if key \<in> dom mp then Returns (Some errKeyAlreadyExists, v)
          else Returns (None, v\<lparr>TempSetObj := \<lparr>m = Some (mp(key \<mapsto> True))\<rparr>\<rparr>))"
proof -
  have "TempSetObj v = \<lparr>m = Some mp\<rparr>" using assms(2) by (simp add: memory_obj_eq)
  then have "v\<lparr>TempSetObj := \<lparr>m = Some mp\<rparr>\<rparr> = v" by (cases v) simp
  then show ?thesis
    using assms
    by (auto simp: Add_def MemoryTempSet_def Memory_Add_def entryToKey_def
        split: prod.splits option.splits)
qed

lemma add_all_memory:
  assumes "TempSet v = MemoryTempSet" and "m (TempSetObj v) = Some mp"
    and "add_all ext v ls = Returns (None, v')"
  shows "\<exists>mp'. v' = v\<lparr>TempSetObj := \<lparr>m = Some mp'\<rparr>\<rparr>
           \<and> dom mp' = dom mp \<union> set (local_keys ext v ls)
           \<and> distinct (local_keys ext v ls)
           \<and> set (local_keys ext v ls) \<inter> dom mp = {}"
  using assms
proof (induction ls arbitrary: v mp)
  case Nil
  then have "TempSetObj v = \<lparr>m = Some mp\<rparr>" by (simp add: memory_obj_eq)
  then have "v\<lparr>TempSetObj := \<lparr>m = Some mp\<rparr>\<rparr> = v" by (cases v) simp
  moreover from Nil.prems(3) have "v' = v" by simp
  ultimately have "v' = v\<lparr>TempSetObj := \<lparr>m = Some mp\<rparr>\<rparr>" by simp
  then show ?case by (intro exI [of _ mp]) (simp add: local_keys_def)
next
  case (Cons e ls)
  note A = Add_memory [OF Cons.prems(1,2), of ext e]
  from Cons.prems(3) A obtain key where
    k: "fst (entryToKey ext v e) = (key, None)" and notin: "key \<notin> dom mp"
    and rest: "add_all ext (v\<lparr>TempSetObj := \<lparr>m = Some (mp(key \<mapsto> True))\<rparr>\<rparr>) ls = Returns (None, v')"
    by (auto split: prod.splits option.splits if_splits)
  let ?v1 = "v\<lparr>TempSetObj := \<lparr>m = Some (mp(key \<mapsto> True))\<rparr>\<rparr>"
  have p1: "TempSet ?v1 = MemoryTempSet" using Cons.prems(1) by simp
  have p2: "m (TempSetObj ?v1) = Some (mp(key \<mapsto> True))" by simp
  have "\<exists>mp'. v' = ?v1\<lparr>TempSetObj := \<lparr>m = Some mp'\<rparr>\<rparr>
           \<and> dom mp' = dom (mp(key \<mapsto> True)) \<union> set (local_keys ext ?v1 ls)
           \<and> distinct (local_keys ext ?v1 ls)
           \<and> set (local_keys ext ?v1 ls) \<inter> dom (mp(key \<mapsto> True)) = {}"
    by (rule Cons.IH [OF p1 p2 rest])
  then obtain mp' where
    v': "v' = ?v1\<lparr>TempSetObj := \<lparr>m = Some mp'\<rparr>\<rparr>"
    and d: "dom mp' = insert key (dom mp) \<union> set (local_keys ext v ls)"
    and di: "distinct (local_keys ext v ls)"
    and dj: "set (local_keys ext v ls) \<inter> insert key (dom mp) = {}"
    by auto
  have lk: "local_keys ext v (e # ls) = key # local_keys ext v ls"
    using k by (simp add: local_keys_def)
  have "v' = v\<lparr>TempSetObj := \<lparr>m = Some mp'\<rparr>\<rparr>" using v' by simp
  moreover have "dom mp' = dom mp \<union> set (local_keys ext v (e # ls))" using d lk by auto
  moreover have "distinct (local_keys ext v (e # ls))" using di dj lk by auto
  moreover have "set (local_keys ext v (e # ls)) \<inter> dom mp = {}" using dj lk notin by auto
  ultimately show ?case by blast
qed

lemma observed_after_loop_reader:
  "observed (verify_after_loop (v\<lparr>StateReader := r\<rparr>)) = observed (verify_after_loop v)"
  by (simp add: verify_after_loop_def split: outcome.splits prod.splits option.splits)

lemma ignored_skipped:
  assumes "TransformFunction v = Some f" and "f d = Returns (True, d')"
  shows "observed (verify_loop ext (pre @ ReadOk (LedgerEntryState d) # post) v)
         = observed (verify_loop ext (pre @ post) v)"
  using assms
proof (induction pre arbitrary: v)
  case Nil
  then show ?case by (simp add: apply_transform_def)
next
  case (Cons a pre)
  show ?case
  proof (cases a)
    case (ReadErr err)
    then show ?thesis
      using observed_after_loop_reader [where v = v and r = "pre @ ReadOk (LedgerEntryState d) # post"]
        observed_after_loop_reader [where v = v and r = "pre @ post"]
      by simp
  next
    case (ReadOk c)
    have ih: "observed (verify_loop ext (pre @ ReadOk (LedgerEntryState d) # post) (v\<lparr>TempSetObj := s\<rparr>))
         = observed (verify_loop ext (pre @ post) (v\<lparr>TempSetObj := s\<rparr>))" for s
      by (rule Cons.IH) (use Cons.prems in simp_all)
    have ih0: "observed (verify_loop ext (pre @ ReadOk (LedgerEntryState d) # post) v)
         = observed (verify_loop ext (pre @ post) v)"
      by (rule Cons.IH) (use Cons.prems in simp_all)
    show ?thesis
      using ReadOk ih ih0
      by (simp add: entryToKey_def split: outcome.splits prod.splits option.splits)
  qed
qed

lemma loaded_state:
  assumes "TempSet v0 = MemoryTempSet" and "Open v0 = Returns (None, v1)"
    and "add_all ext v1 locals = Returns (None, v)"
  shows "\<exists>mp. v = v0\<lparr>TempSetObj := \<lparr>m = Some mp\<rparr>\<rparr> \<and> dom mp = set (local_keys ext v locals)
              \<and> distinct (local_keys ext v locals)"
proof -
  let ?v1 = "v0\<lparr>TempSetObj := \<lparr>m = Some Map.empty\<rparr>\<rparr>"
  from assms(1,2) have v1: "v1 = ?v1" by (simp add: Open_memory)
  have p1: "TempSet ?v1 = MemoryTempSet" using assms(1) by simp
  have p2: "m (TempSetObj ?v1) = Some Map.empty" by simp
  have p3: "add_all ext ?v1 locals = Returns (None, v)" using assms(3) v1 by simp
  have "\<exists>mp'. v = ?v1\<lparr>TempSetObj := \<lparr>m = Some mp'\<rparr>\<rparr>
           \<and> dom mp' = dom (Map.empty :: string \<rightharpoonup> bool) \<union> set (local_keys ext ?v1 locals)
           \<and> distinct (local_keys ext ?v1 locals)
           \<and> set (local_keys ext ?v1 locals) \<inter> dom (Map.empty :: string \<rightharpoonup> bool) = {}"
    by (rule add_all_memory [OF p1 p2 p3])
  then obtain mp where v: "v = ?v1\<lparr>TempSetObj := \<lparr>m = Some mp\<rparr>\<rparr>"
    and d: "dom mp = set (local_keys ext v0 locals)" and di: "distinct (local_keys ext v0 locals)"
    by auto
  from v have v': "v = v0\<lparr>TempSetObj := \<lparr>m = Some mp\<rparr>\<rparr>" by simp
  then have "local_keys ext v locals = local_keys ext v0 locals" by simp
  with v' d di show ?thesis by auto
qed

text \<open>
  Stream records matched one to one with added records: since no fingerprint is added
  twice, none occurs twice among them.
\<close>

lemma matched_keys:
  assumes "mset ks \<subseteq># mset ls" and "distinct ls"
  shows "distinct ks \<and> set ks \<subseteq> set ls"
proof -
  have le: "count (mset ks) a \<le> count (mset ls) a" for a
    using assms(1) by (rule mset_subset_eq_count)
  have one: "count (mset ls) a \<le> 1" for a
    using assms(2) by (simp add: distinct_count_atmost_1)
  have "count (mset ks) a = (if a \<in> set ks then 1 else 0)" for a
  proof (cases "a \<in> set ks")
    case True
    then have "0 < count (mset ks) a" by simp
    with le [of a] one [of a] have "count (mset ks) a = 1" by linarith
    with True show ?thesis by simp
  next
    case False
    then show ?thesis by (simp add: count_eq_zero_iff)
  qed
  then have "distinct ks" by (simp add: distinct_count_atmost_1)
  moreover from assms(1) have "set_mset (mset ks) \<subseteq> set_mset (mset ls)"
    by (rule set_mset_mono)
  ultimately show ?thesis by simp
qed

lemma unmatched_key:
  assumes "mset ks \<subset># mset ls" and "distinct ls"
  shows "\<not> set ls \<subseteq> set ks"
proof
  assume a: "set ls \<subseteq> set ks"
  from assms have s: "mset ks \<subseteq># mset ls" and ne: "mset ks \<noteq> mset ls" by auto
  from matched_keys [OF s assms(2)] have d: "distinct ks" and sub: "set ks \<subseteq> set ls" by auto
  from a sub have "set ks = set ls" by auto
  with d assms(2) have "mset ks = mset ls" by (simp add: set_eq_iff_mset_eq_distinct)
  with ne show False by contradiction
qed

lemma sublist_corrupted_message: "sublist key (corrupted_message a b key)"
  unfolding corrupted_message_def sublist_def
  by (rule exI [of _ "''Could not find entry '' @ a @ '' (transformed = '' @ b @ '', key = ''"],
      rule exI [of _ "'') in added entries''"]) simp

text \<open>
  Claim C3. Local records are added to the in-memory set after \<open>Open\<close>. The stream
  delivers records \<open>pre\<close> that match added records, each its own (their fingerprints
  are a sub-multiset of the added ones), then a record \<open>x\<close> whose fingerprint \<open>key\<close>
  was never added, then anything at all. \<open>Verify\<close> returns \<open>(false, nil)\<close>,
  \<open>StateError\<close> is an error whose message contains \<open>key\<close>, and the reader is left
  exactly where it was after \<open>x\<close>: nothing of \<open>post\<close> has been read.
\<close>

theorem Verify_single_mismatch:
  assumes "TempSet v0 = MemoryTempSet"
    and "Open v0 = Returns (None, v1)"
    and "add_all ext v1 locals = Returns (None, v)"
    and "StateReader v = reader_of pre @ ReadOk (LedgerEntryState x) # post"
    and "stream_keys ext v pre = Some ks"
    and "mset ks \<subseteq># mset (local_keys ext v locals)"
    and "stream_keys ext v [x] = Some [key]"
    and "key \<notin> set (local_keys ext v locals)"
  shows "\<exists>v' err. Verify ext v = Returns ((False, None), v') \<and> StateError v' = Some err
           \<and> sublist key (Error err) \<and> StateReader v' = post"
proof -
  from loaded_state [OF assms(1-3)] obtain mp where
    v: "v = v0\<lparr>TempSetObj := \<lparr>m = Some mp\<rparr>\<rparr>" and d: "dom mp = set (local_keys ext v locals)"
    and dl: "distinct (local_keys ext v locals)"
    by blast
  have p1: "TempSet v = MemoryTempSet" using v assms(1) by simp
  have p2: "m (TempSetObj v) = Some mp" using v by simp
  from matched_keys [OF assms(6) dl] have dk: "distinct ks"
    and sk: "set ks \<subseteq> set (local_keys ext v locals)" by simp_all
  have sub: "set ks \<subseteq> dom mp" using sk d by simp
  let ?w = "v\<lparr>TempSetObj := \<lparr>m = Some (mp |` (- set ks))\<rparr>\<rparr>"
  have loop: "Verify ext v = verify_loop ext (ReadOk (LedgerEntryState x) # post) ?w"
    unfolding Verify_def assms(4)
    by (rule verify_loop_matched_prefix [OF p1 p2 assms(5) dk sub])
  from assms(7) obtain entry where tr: "apply_transform v x = Returns (False, entry)"
    and k: "fst (entryToKey ext v entry) = (key, None)"
    by (auto split: outcome.splits prod.splits option.splits if_splits)
  have ek: "entryToKey ext ?w entry = ((key, None), ?w)"
    using k by (simp add: entryToKey_TempSetObj)
  have notin: "(mp |` (- set ks)) key = None"
    using assms(8) d by (auto simp: restrict_map_def)
  have rm: "ts_Remove (TempSet ?w) key (TempSetObj ?w) = Returns (Some errKeyNotFound, TempSetObj ?w)"
    using p1 notin by (simp add: MemoryTempSet_def Memory_Remove_def)
  let ?err = "ErrorNew (corrupted_message
      (EncodeToString ext (fst (MarshalBinary ext x)))
      (EncodeToString ext (fst (MarshalBinary ext entry))) key)"
  let ?v' = "?w\<lparr>StateReader := post, stateCorruptedError := Some ?err\<rparr>"
  have "verify_loop ext (ReadOk (LedgerEntryState x) # post) ?w = Returns ((False, None), ?v')"
    using tr ek rm by simp
  with loop have "Verify ext v = Returns ((False, None), ?v')" by simp
  moreover have "StateError ?v' = Some ?err" by (simp add: StateError_def)
  moreover have "sublist key (Error ?err)" by (simp add: sublist_corrupted_message)
  moreover have "StateReader ?v' = post" by simp
  ultimately show ?thesis by blast
qed

text \<open>
  Claim C3 at local records A and B and the stream A, X, B: the diagnosis names X and
  the reader still holds B.
\<close>

theorem Verify_single_mismatch_witness:
  "TempSet (fresh_verifier (reader_of [account_entry [1] 1, account_entry [9] 1, account_entry [2] 1])) = MemoryTempSet
   \<and> Open (fresh_verifier (reader_of [account_entry [1] 1, account_entry [9] 1, account_entry [2] 1]))
       = Returns (None, loaded_verifier (reader_of [account_entry [1] 1, account_entry [9] 1, account_entry [2] 1]) [])
   \<and> add_all toy_externals (loaded_verifier (reader_of [account_entry [1] 1, account_entry [9] 1, account_entry [2] 1]) [])
         [account_entry [1] 1, account_entry [2] 1]
       = Returns (None, loaded_verifier (reader_of [account_entry [1] 1, account_entry [9] 1, account_entry [2] 1]) [''A'', ''B''])
   \<and> mset [''A''] \<subseteq># mset [''A'', ''B'']
   \<and> (\<exists>v' err. Verify toy_externals (loaded_verifier (reader_of [account_entry [1] 1, account_entry [9] 1, account_entry [2] 1]) [''A'', ''B''])
           = Returns ((False, None), v')
         \<and> StateError v' = Some err \<and> sublist ''X'' (Error err)
         \<and> StateReader v' = reader_of [account_entry [2] 1])"
proof -
  let ?rd = "reader_of [account_entry [1] 1, account_entry [9] 1, account_entry [2] 1]"
  let ?v = "loaded_verifier ?rd [''A'', ''B'']"
  have h1: "TempSet (fresh_verifier ?rd) = MemoryTempSet" by (simp add: fresh_verifier_def)
  have h2: "Open (fresh_verifier ?rd) = Returns (None, loaded_verifier ?rd [])" by (simp add: toy_defs)
  have h3: "add_all toy_externals (loaded_verifier ?rd []) [account_entry [1] 1, account_entry [2] 1]
       = Returns (None, ?v)" by (simp add: toy_defs)
  have h4: "StateReader ?v = reader_of [account_entry [1] 1] @ ReadOk (LedgerEntryState (account_entry [9] 1))
       # reader_of [account_entry [2] 1]" by (simp add: toy_defs)
  have h5: "stream_keys toy_externals ?v [account_entry [1] 1] = Some [''A'']" by (simp add: toy_defs)
  have lk: "local_keys toy_externals ?v [account_entry [1] 1, account_entry [2] 1] = [''A'', ''B'']"
    by (simp add: toy_defs)
  have ms: "mset [''A''] \<subseteq># mset [''A'', ''B'']" by simp
  have h6: "mset [''A''] \<subseteq># mset (local_keys toy_externals ?v [account_entry [1] 1, account_entry [2] 1])"
    unfolding lk by (rule ms)
  have h7: "stream_keys toy_externals ?v [account_entry [9] 1] = Some [''X'']" by (simp add: toy_defs)
  have h8: "''X'' \<notin> set (local_keys toy_externals ?v [account_entry [1] 1, account_entry [2] 1])"
    unfolding lk by simp
  from Verify_single_mismatch [OF h1 h2 h3 h4 h5 h6 h7 h8] h1 h2 h3 ms show ?thesis by blast
qed

lemma Verify_matched_stream:
  assumes "TempSet v0 = MemoryTempSet"
    and "Open v0 = Returns (None, v1)"
    and "add_all ext v1 locals = Returns (None, v)"
    and "StateReader v = reader_of stream"
    and "stream_keys ext v stream = Some ks"
    and "distinct ks"
    and "set ks \<subseteq> set (local_keys ext v locals)"
  shows "\<exists>v'. Verify ext v = Returns ((set (local_keys ext v locals) \<subseteq> set ks, None), v')"
proof -
  from loaded_state [OF assms(1-3)] obtain mp where
    v: "v = v0\<lparr>TempSetObj := \<lparr>m = Some mp\<rparr>\<rparr>" and d: "dom mp = set (local_keys ext v locals)"
    by blast
  have p1: "TempSet v = MemoryTempSet" using v assms(1) by simp
  have p2: "m (TempSetObj v) = Some mp" using v by simp
  have sub: "set ks \<subseteq> dom mp" using assms(7) d by simp
  let ?w = "v\<lparr>TempSetObj := \<lparr>m = Some (mp |` (- set ks))\<rparr>\<rparr>"
  have "verify_loop ext (reader_of stream @ []) v = verify_loop ext [] ?w"
    by (rule verify_loop_matched_prefix [OF p1 p2 assms(5,6) sub])
  then have loop: "Verify ext v = verify_loop ext [] ?w"
    by (simp add: Verify_def assms(4))
  have e: "(dom (mp |` (- set ks)) = {}) = (set (local_keys ext v locals) \<subseteq> set ks)"
    using d by auto
  have "verify_loop ext [] ?w
        = Returns ((set (local_keys ext v locals) \<subseteq> set ks, None), ?w\<lparr>StateReader := []\<rparr>)"
    using p1 e by (simp add: verify_after_loop_def MemoryTempSet_def Memory_IsEmpty_def)
  with loop show ?thesis by simp
qed

text \<open>
  Claim C4. When the fingerprints of the stream's records, after the transform function
  and without the ignored records, are a permutation of the fingerprints of the records
  added with \<open>Add\<close>, \<open>Verify\<close> returns \<open>(true, nil)\<close>, in whatever order the
  stream delivers them.
\<close>

theorem Verify_order_independent:
  assumes "TempSet v0 = MemoryTempSet"
    and "Open v0 = Returns (None, v1)"
    and "add_all ext v1 locals = Returns (None, v)"
    and "StateReader v = reader_of stream"
    and "stream_keys ext v stream = Some ks"
    and "mset ks = mset (local_keys ext v locals)"
  shows "\<exists>v'. Verify ext v = Returns ((True, None), v')"
proof -
  from loaded_state [OF assms(1-3)] have di: "distinct (local_keys ext v locals)" by blast
  from assms(6) have s: "set ks = set (local_keys ext v locals)" by (rule mset_eq_setD)
  from assms(6) di have dk: "distinct ks" by (metis mset_eq_imp_distinct_iff)
  from Verify_matched_stream [OF assms(1-5) dk] s show ?thesis by simp
qed

text \<open>Claim C4 at local records A, B, C and the stream C, A, B.\<close>

theorem Verify_order_independent_witness:
  "Open (fresh_verifier (reader_of [account_entry [3] 1, account_entry [1] 1, account_entry [2] 1]))
       = Returns (None, loaded_verifier (reader_of [account_entry [3] 1, account_entry [1] 1, account_entry [2] 1]) [])
   \<and> add_all toy_externals (loaded_verifier (reader_of [account_entry [3] 1, account_entry [1] 1, account_entry [2] 1]) [])
         [account_entry [1] 1, account_entry [2] 1, account_entry [3] 1]
       = Returns (None, loaded_verifier (reader_of [account_entry [3] 1, account_entry [1] 1, account_entry [2] 1]) [''A'', ''B'', ''C''])
   \<and> mset [''C'', ''A'', ''B''] = mset [''A'', ''B'', ''C'']
   \<and> (\<exists>v'. Verify toy_externals (loaded_verifier (reader_of [account_entry [3] 1, account_entry [1] 1, account_entry [2] 1]) [''A'', ''B'', ''C''])
           = Returns ((True, None), v'))"
proof -
  let ?rd = "reader_of [account_entry [3] 1, account_entry [1] 1, account_entry [2] 1]"
  let ?v = "loaded_verifier ?rd [''A'', ''B'', ''C'']"
  have h1: "TempSet (fresh_verifier ?rd) = MemoryTempSet" by (simp add: fresh_verifier_def)
  have h2: "Open (fresh_verifier ?rd) = Returns (None, loaded_verifier ?rd [])" by (simp add: toy_defs)
  have h3: "add_all toy_externals (loaded_verifier ?rd []) [account_entry [1] 1, account_entry [2] 1, account_entry [3] 1]
       = Returns (None, ?v)" by (simp add: toy_defs)
  have h4: "StateReader ?v = ?rd" by (simp add: toy_defs)
  have h5: "stream_keys toy_externals ?v [account_entry [3] 1, account_entry [1] 1, account_entry [2] 1]
       = Some [''C'', ''A'', ''B'']" by (simp add: toy_defs)
  have m: "mset [''C'', ''A'', ''B''] = mset [''A'', ''B'', ''C'']" by (simp add: add.commute)
  have h6: "mset [''C'', ''A'', ''B''] = mset (local_keys toy_externals ?v [account_entry [1] 1, account_entry [2] 1, account_entry [3] 1])"
    by (simp add: toy_defs add.commute)
  from Verify_order_independent [OF h1 h2 h3 h4 h5 h6] h2 h3 m show ?thesis by blast
qed

text \<open>
  Claim C1 as it is written says that \<open>Verify\<close> returns \<open>(true, err)\<close> when the
  stream ends with a local record unmatched. With one record added and an empty stream
  \<open>IsEmpty\<close> succeeds, reports a non-empty set, and \<open>Verify\<close> returns
  \<open>(false, nil)\<close>.
\<close>

theorem Verify_leftover_counterexample:
  "Open (fresh_verifier []) = Returns (None, loaded_verifier [] [])
   \<and> add_all toy_externals (loaded_verifier [] []) [account_entry [1] 1]
       = Returns (None, loaded_verifier [] [''A''])
   \<and> Verify toy_externals (loaded_verifier [] [''A''])
       = Returns ((False, None), loaded_verifier [] [''A''])"
  by (simp add: toy_defs)

text \<open>
  Claim C1, as amended. When the stream is exhausted without a mismatch and a locally
  added record was never matched (the stream's fingerprints are a strict sub-multiset of
  the added ones), \<open>IsEmpty\<close> succeeds and reports a non-empty set, and \<open>Verify\<close>
  returns \<open>(false, nil)\<close>.
\<close>

theorem Verify_leftover:
  assumes "TempSet v0 = MemoryTempSet"
    and "Open v0 = Returns (None, v1)"
    and "add_all ext v1 locals = Returns (None, v)"
    and "StateReader v = reader_of stream"
    and "stream_keys ext v stream = Some ks"
    and "mset ks \<subset># mset (local_keys ext v locals)"
  shows "\<exists>v'. Verify ext v = Returns ((False, None), v')"
proof -
  from loaded_state [OF assms(1-3)] have dl: "distinct (local_keys ext v locals)" by blast
  from assms(6) have le: "mset ks \<subseteq># mset (local_keys ext v locals)" by simp
  from matched_keys [OF le dl] have dk: "distinct ks"
    and sub: "set ks \<subseteq> set (local_keys ext v locals)" by simp_all
  from unmatched_key [OF assms(6) dl] have ne: "\<not> set (local_keys ext v locals) \<subseteq> set ks" .
  from Verify_matched_stream [OF assms(1-5) dk sub] ne show ?thesis by simp
qed

text \<open>Claim C1, as amended, at local records A, B, C and the stream A, B.\<close>

theorem Verify_leftover_witness:
  "Open (fresh_verifier (reader_of [account_entry [1] 1, account_entry [2] 1]))
       = Returns (None, loaded_verifier (reader_of [account_entry [1] 1, account_entry [2] 1]) [])
   \<and> add_all toy_externals (loaded_verifier (reader_of [account_entry [1] 1, account_entry [2] 1]) [])
         [account_entry [1] 1, account_entry [2] 1, account_entry [3] 1]
       = Returns (None, loaded_verifier (reader_of [account_entry [1] 1, account_entry [2] 1]) [''A'', ''B'', ''C''])
   \<and> mset [''A'', ''B''] \<subset># mset [''A'', ''B'', ''C'']
   \<and> (\<exists>v'. Verify toy_externals (loaded_verifier (reader_of [account_entry [1] 1, account_entry [2] 1]) [''A'', ''B'', ''C''])
           = Returns ((False, None), v'))"
proof -
  let ?rd = "reader_of [account_entry [1] 1, account_entry [2] 1]"
  let ?v = "loaded_verifier ?rd [''A'', ''B'', ''C'']"
  have h1: "TempSet (fresh_verifier ?rd) = MemoryTempSet" by (simp add: fresh_verifier_def)
  have h2: "Open (fresh_verifier ?rd) = Returns (None, loaded_verifier ?rd [])" by (simp add: toy_defs)
  have h3: "add_all toy_externals (loaded_verifier ?rd []) [account_entry [1] 1, account_entry [2] 1, account_entry [3] 1]
       = Returns (None, ?v)" by (simp add: toy_defs)
  have h4: "StateReader ?v = ?rd" by (simp add: toy_defs)
  have h5: "stream_keys toy_externals ?v [account_entry [1] 1, account_entry [2] 1]
       = Some [''A'', ''B'']" by (simp add: toy_defs)
  have lk: "local_keys toy_externals ?v [account_entry [1] 1, account_entry [2] 1, account_entry [3] 1]
      = [''A'', ''B'', ''C'']" by (simp add: toy_defs)
  have ms: "mset [''A'', ''B''] \<subset># mset [''A'', ''B'', ''C'']" by simp
  have h6: "mset [''A'', ''B''] \<subset># mset (local_keys toy_externals ?v [account_entry [1] 1, account_entry [2] 1, account_entry [3] 1])"
    unfolding lk by (rule ms)
  from Verify_leftover [OF h1 h2 h3 h4 h5 h6] h2 h3 ms show ?thesis by blast
qed

lemma memory_adds_opened:
  "m s = Some mp \<Longrightarrow> \<exists>mp'. memory_adds keys s = Returns \<lparr>m = Some mp'\<rparr> \<and> dom mp' = dom mp \<union> set keys"
proof (induction keys arbitrary: s mp)
  case Nil
  then have "s = \<lparr>m = Some mp\<rparr>" by (rule memory_obj_eq)
  then show ?case by auto
next
  case (Cons key keys)
  show ?case
  proof (cases "mp key")
    case None
    let ?s' = "s\<lparr>m := Some (mp(key \<mapsto> True))\<rparr>"
    have st: "Memory_Add key s = Returns (None, ?s')"
      using Cons.prems None by (simp add: Memory_Add_def)
    have p: "m ?s' = Some (mp(key \<mapsto> True))" by simp
    have "\<exists>mp'. memory_adds keys ?s' = Returns \<lparr>m = Some mp'\<rparr>
            \<and> dom mp' = dom (mp(key \<mapsto> True)) \<union> set keys"
      by (rule Cons.IH [OF p])
    then show ?thesis using st by auto
  next
    case (Some b)
    have st: "Memory_Add key s = Returns (Some errKeyAlreadyExists, s)"
      using Cons.prems Some by (simp add: Memory_Add_def)
    have "\<exists>mp'. memory_adds keys s = Returns \<lparr>m = Some mp'\<rparr> \<and> dom mp' = dom mp \<union> set keys"
      by (rule Cons.IH) (rule Cons.prems)
    then show ?thesis using st Some by auto
  qed
qed

lemma memory_removes_opened:
  "m s = Some mp \<Longrightarrow> \<exists>mp'. memory_removes keys s = Returns \<lparr>m = Some mp'\<rparr> \<and> dom mp' = dom mp - set keys"
proof (induction keys arbitrary: s mp)
  case Nil
  then have "s = \<lparr>m = Some mp\<rparr>" by (rule memory_obj_eq)
  then show ?case by auto
next
  case (Cons key keys)
  show ?case
  proof (cases "mp key")
    case None
    have st: "Memory_Remove key s = Returns (Some errKeyNotFound, s)"
      using Cons.prems None by (simp add: Memory_Remove_def)
    have "\<exists>mp'. memory_removes keys s = Returns \<lparr>m = Some mp'\<rparr> \<and> dom mp' = dom mp - set keys"
      by (rule Cons.IH) (rule Cons.prems)
    then show ?thesis using st None by auto
  next
    case (Some b)
    let ?s' = "s\<lparr>m := Some (mp(key := None))\<rparr>"
    have st: "Memory_Remove key s = Returns (None, ?s')"
      using Cons.prems Some by (simp add: Memory_Remove_def)
    have p: "m ?s' = Some (mp(key := None))" by simp
    have "\<exists>mp'. memory_removes keys ?s' = Returns \<lparr>m = Some mp'\<rparr>
            \<and> dom mp' = dom (mp(key := None)) - set keys"
      by (rule Cons.IH [OF p])
    then show ?thesis using st by auto
  qed
qed

text \<open>
  Claim C9. After \<open>Open\<close>, any sequence of \<open>Add\<close> calls followed by any sequence of
  \<open>Remove\<close> calls leaves the in-memory set holding exactly the keys added and not
  removed. On that set \<open>Remove key\<close> deletes \<open>key\<close> when it is present and fails with
  \<open>errKeyNotFound\<close>, changing nothing, exactly when it is absent; \<open>IsEmpty\<close> returns
  true exactly when no key is held.
\<close>

theorem memory_temp_set_contract:
  "\<exists>s1 s2 s3 mp.
     Memory_Open s0 = Returns (None, s1)
     \<and> memory_adds added s1 = Returns s2
     \<and> memory_removes removed s2 = Returns s3
     \<and> s3 = \<lparr>m = Some mp\<rparr> \<and> dom mp = set added - set removed
     \<and> Memory_Remove key s3 =
         (if key \<in> set added - set removed then Returns (None, \<lparr>m = Some (mp(key := None))\<rparr>)
          else Returns (Some errKeyNotFound, s3))
     \<and> Memory_IsEmpty s3 = Returns ((set added - set removed = {}, None), s3)"
proof -
  let ?s1 = "s0\<lparr>m := Some Map.empty\<rparr>"
  have o: "Memory_Open s0 = Returns (None, ?s1)" by (simp add: Memory_Open_def)
  have "m ?s1 = Some Map.empty" by simp
  from memory_adds_opened [OF this, of added] obtain mp2 where
    a: "memory_adds added ?s1 = Returns \<lparr>m = Some mp2\<rparr>" and d2: "dom mp2 = set added" by auto
  have "m \<lparr>m = Some mp2\<rparr> = Some mp2" by simp
  from memory_removes_opened [OF this, of removed] obtain mp where
    r: "memory_removes removed \<lparr>m = Some mp2\<rparr> = Returns \<lparr>m = Some mp\<rparr>"
    and d: "dom mp = set added - set removed" using d2 by auto
  have rm: "Memory_Remove key \<lparr>m = Some mp\<rparr> =
         (if key \<in> set added - set removed then Returns (None, \<lparr>m = Some (mp(key := None))\<rparr>)
          else Returns (Some errKeyNotFound, \<lparr>m = Some mp\<rparr>))"
    using d by (auto simp: Memory_Remove_def)
  have ie: "Memory_IsEmpty \<lparr>m = Some mp\<rparr> = Returns ((set added - set removed = {}, None), \<lparr>m = Some mp\<rparr>)"
    using d by (simp add: Memory_IsEmpty_def)
  from o a r d rm ie show ?thesis by blast
qed

text \<open>
  Claim C5. With the in-memory set, for two records with the same canonical encoding,
  \<open>Add\<close> of the first after \<open>Open\<close> succeeds and \<open>Add\<close> of the second fails with
  \<open>errKeyAlreadyExists\<close>, leaving the verifier as it was.
\<close>

theorem Add_duplicate_rejected:
  assumes "TempSet v0 = MemoryTempSet"
    and "MarshalBinary ext e1 = (encoded, None)"
    and "MarshalBinary ext e2 = (encoded, None)"
  shows "\<exists>v1 v2. Open v0 = Returns (None, v1) \<and> Add ext v1 e1 = Returns (None, v2)
           \<and> Add ext v2 e2 = Returns (Some errKeyAlreadyExists, v2)"
proof -
  let ?key = "EncodeToString ext (Sum256 ext encoded)"
  let ?v1 = "v0\<lparr>TempSetObj := \<lparr>m = Some Map.empty\<rparr>\<rparr>"
  let ?v2 = "v0\<lparr>TempSetObj := \<lparr>m = Some [?key \<mapsto> True]\<rparr>\<rparr>"
  have "Open v0 = Returns (None, ?v1)" using assms(1) by (rule Open_memory)
  moreover have "Add ext ?v1 e1 = Returns (None, ?v2)"
    using assms(1,2) by (simp add: Add_def entryToKey_def MemoryTempSet_def Memory_Add_def)
  moreover have "Add ext ?v2 e2 = Returns (Some errKeyAlreadyExists, ?v2)"
    using assms(1,3) by (simp add: Add_def entryToKey_def MemoryTempSet_def Memory_Add_def)
  ultimately show ?thesis by blast
qed

text \<open>Claim C5 at two account entries that differ only in their master weight.\<close>

theorem Add_duplicate_rejected_witness:
  "TempSet (fresh_verifier []) = MemoryTempSet
   \<and> MarshalBinary toy_externals (account_entry [1] 1) = ([1], None)
   \<and> MarshalBinary toy_externals (account_entry [1] 5) = ([1], None)
   \<and> Open (fresh_verifier []) = Returns (None, loaded_verifier [] [])
   \<and> Add toy_externals (loaded_verifier [] []) (account_entry [1] 1) = Returns (None, loaded_verifier [] [''A''])
   \<and> Add toy_externals (loaded_verifier [] [''A'']) (account_entry [1] 5)
       = Returns (Some errKeyAlreadyExists, loaded_verifier [] [''A''])"
  using Add_duplicate_rejected [of "fresh_verifier []" toy_externals "account_entry [1] 1" "[1]" "account_entry [1] 5"]
  by (simp add: toy_defs)

text \<open>
  Claim C7. Two records with the same canonical encoding get the same result from
  \<open>entryToKey\<close> (the same fingerprint, or the same encoding error), whatever the state
  of the verifier at either call, and the call leaves the verifier as it was.
\<close>

theorem entryToKey_deterministic:
  assumes "MarshalBinary ext e1 = MarshalBinary ext e2"
  shows "fst (entryToKey ext v1 e1) = fst (entryToKey ext v2 e2)
         \<and> snd (entryToKey ext v1 e1) = v1 \<and> snd (entryToKey ext v2 e2) = v2"
  using assms by (simp add: entryToKey_def split: prod.splits option.splits)

text \<open>Claim C7 at two entries with one encoding, fingerprinted in two different states.\<close>

theorem entryToKey_deterministic_witness:
  "MarshalBinary toy_externals (account_entry [1, 2] 1) = MarshalBinary toy_externals (account_entry [1, 2] 5)
   \<and> fst (entryToKey toy_externals (fresh_verifier []) (account_entry [1, 2] 1)) = (''AB'', None)
   \<and> fst (entryToKey toy_externals (loaded_verifier [] [''C'']) (account_entry [1, 2] 5)) = (''AB'', None)
   \<and> snd (entryToKey toy_externals (fresh_verifier []) (account_entry [1, 2] 1)) = fresh_verifier []"
  using entryToKey_deterministic [of toy_externals "account_entry [1, 2] 1" "account_entry [1, 2] 5"
      "fresh_verifier []" "loaded_verifier [] [''C'']"]
  by (simp add: toy_externals_def account_entry_def entryToKey_def)

text \<open>
  Claim C8. Whatever temporary set is plugged in, a \<open>Close\<close> that returns leaves the
  stored diagnosis as it was: \<open>StateError\<close> gives the same value after it as before.
\<close>

theorem Close_keeps_diagnosis:
  assumes "Close v = Returns (err, v')"
  shows "StateError v' = StateError v"
  using assms by (auto simp: Close_def StateError_def split: outcome.splits prod.splits)

text \<open>Claim C8 at a verifier that holds a diagnosis and one unmatched key.\<close>

theorem Close_keeps_diagnosis_witness:
  "Close ((loaded_verifier [] [''B''])\<lparr>stateCorruptedError := Some (ErrorNew (corrupted_message ''X'' ''X'' ''X''))\<rparr>)
     = Returns (None, (fresh_verifier [])\<lparr>stateCorruptedError := Some (ErrorNew (corrupted_message ''X'' ''X'' ''X''))\<rparr>)
   \<and> StateError ((fresh_verifier [])\<lparr>stateCorruptedError := Some (ErrorNew (corrupted_message ''X'' ''X'' ''X''))\<rparr>)
     = StateError ((loaded_verifier [] [''B''])\<lparr>stateCorruptedError := Some (ErrorNew (corrupted_message ''X'' ''X'' ''X''))\<rparr>)
   \<and> StateError ((loaded_verifier [] [''B''])\<lparr>stateCorruptedError := Some (ErrorNew (corrupted_message ''X'' ''X'' ''X''))\<rparr>) \<noteq> None"
proof -
  let ?v = "(loaded_verifier [] [''B''])\<lparr>stateCorruptedError := Some (ErrorNew (corrupted_message ''X'' ''X'' ''X''))\<rparr>"
  let ?v' = "(fresh_verifier [])\<lparr>stateCorruptedError := Some (ErrorNew (corrupted_message ''X'' ''X'' ''X''))\<rparr>"
  have h: "Close ?v = Returns (None, ?v')"
    by (simp add: Close_def loaded_verifier_def fresh_verifier_def MemoryTempSet_def Memory_Close_def)
  have n: "StateError ?v \<noteq> None" by (simp add: StateError_def)
  from Close_keeps_diagnosis [OF h] h n show ?thesis by simp
qed

text \<open>
  Claim C10. On an entry whose type discriminant is none of Account, Trustline, Offer
  and Data, \<open>transformEntry\<close> panics with "Invalid type" instead of returning.
\<close>

theorem transformEntry_panics_on_unknown_type:
  assumes "Type (Data entry) \<noteq> LedgerEntryTypeAccount"
    and "Type (Data entry) \<noteq> LedgerEntryTypeTrustline"
    and "Type (Data entry) \<noteq> LedgerEntryTypeOffer"
    and "Type (Data entry) \<noteq> LedgerEntryTypeData"
  shows "transformEntry ext entry = Panics ''Invalid type''"
  using assms by (simp add: transformEntry_def)

text \<open>Claim C10 at an entry with discriminant 4.\<close>

theorem transformEntry_panics_on_unknown_type_witness:
  "Type (Data (LedgerEntry_zero\<lparr>Data := (Data LedgerEntry_zero)\<lparr>Type := 4\<rparr>\<rparr>)) \<noteq> LedgerEntryTypeAccount
   \<and> Type (Data (LedgerEntry_zero\<lparr>Data := (Data LedgerEntry_zero)\<lparr>Type := 4\<rparr>\<rparr>)) \<noteq> LedgerEntryTypeTrustline
   \<and> Type (Data (LedgerEntry_zero\<lparr>Data := (Data LedgerEntry_zero)\<lparr>Type := 4\<rparr>\<rparr>)) \<noteq> LedgerEntryTypeOffer
   \<and> Type (Data (LedgerEntry_zero\<lparr>Data := (Data LedgerEntry_zero)\<lparr>Type := 4\<rparr>\<rparr>)) \<noteq> LedgerEntryTypeData
   \<and> transformEntry toy_externals (LedgerEntry_zero\<lparr>Data := (Data LedgerEntry_zero)\<lparr>Type := 4\<rparr>\<rparr>)
       = Panics ''Invalid type''"
  using transformEntry_panics_on_unknown_type
    [of "LedgerEntry_zero\<lparr>Data := (Data LedgerEntry_zero)\<lparr>Type := 4\<rparr>\<rparr>" toy_externals]
  by (simp add: LedgerEntry_zero_def LedgerEntryTypeAccount_def LedgerEntryTypeTrustline_def
      LedgerEntryTypeOffer_def LedgerEntryTypeData_def)

text \<open>
  Claim C2 fails on the code where \<open>IsEmpty\<close> returns an error: \<open>Verify\<close> returns
  \<open>(true, err)\<close> and has stored the message about entries not found in the archives,
  so \<open>StateError\<close> is not empty after an infrastructure failure.
\<close>

theorem Verify_IsEmpty_error_records_diagnosis:
  "observed (Verify toy_externals failing_verifier)
   = Returns ((True, Some backend_error), (),
       Some (ErrorNew ''Some entries added in Add has not been found in history archives''))"
  by (simp add: Verify_def failing_verifier_def FailingTempSet_def verify_after_loop_def)

text \<open>The abort after a failing \<open>IsEmpty\<close> always stores a diagnosis.\<close>

lemma verify_after_loop_abort:
  assumes "verify_after_loop v = Returns ((True, Some e), v')"
  shows "stateCorruptedError v' =
           Some (ErrorNew ''Some entries added in Add has not been found in history archives'')"
  using assms
  by (auto simp: verify_after_loop_def split: outcome.splits prod.splits option.splits)

text \<open>
  Every \<open>(true, err)\<close> of \<open>Verify\<close> other than a failing \<open>IsEmpty\<close> leaves the
  diagnosis as it was.
\<close>

lemma verify_loop_abort_diagnosis:
  assumes "verify_loop ext rs v = Returns ((True, Some e), v')"
  shows "stateCorruptedError v' = stateCorruptedError v
         \<or> (\<exists>b s s'. ts_IsEmpty (TempSet v) s = Returns ((b, Some e), s'))"
  using assms
proof (induction rs arbitrary: v)
  case Nil
  then show ?case
    by (auto simp: verify_after_loop_def split: outcome.splits prod.splits option.splits)
next
  case (Cons a rs)
  have ih: "verify_loop ext rs (v\<lparr>TempSetObj := s\<rparr>) = Returns ((True, Some e), v') \<Longrightarrow>
      stateCorruptedError v' = stateCorruptedError v
         \<or> (\<exists>b s s'. ts_IsEmpty (TempSet v) s = Returns ((b, Some e), s'))" for s
    using Cons.IH [of "v\<lparr>TempSetObj := s\<rparr>"] by simp
  show ?case
  proof (cases a)
    case (ReadErr err)
    with Cons.prems show ?thesis
      by (auto simp: verify_after_loop_def split: outcome.splits prod.splits option.splits if_splits)
  next
    case (ReadOk c)
    with Cons.prems ih Cons.IH [of v] show ?thesis
      by (auto simp: entryToKey_def split: outcome.splits prod.splits option.splits if_splits)
  qed
qed

lemma apply_transform_StateReader [simp]:
  "apply_transform (v\<lparr>StateReader := r\<rparr>) e = apply_transform v e"
  by (simp add: apply_transform_def)

lemma entryToKey_StateReader:
  "entryToKey ext (v\<lparr>StateReader := r\<rparr>) e = (fst (entryToKey ext v e), v\<lparr>StateReader := r\<rparr>)"
  by (simp add: entryToKey_def split: prod.splits option.splits)

lemma verify_loop_StateReader [simp]:
  "verify_loop ext rs (v\<lparr>StateReader := r\<rparr>) = verify_loop ext rs v"
proof (induction rs arbitrary: v)
  case Nil
  then show ?case by simp
next
  case (Cons a rs)
  have comm: "v\<lparr>StateReader := r, TempSetObj := s\<rparr> = v\<lparr>TempSetObj := s, StateReader := r\<rparr>" for s
    by (cases v) simp
  have ih: "verify_loop ext rs (v\<lparr>StateReader := r, TempSetObj := s\<rparr>) = verify_loop ext rs (v\<lparr>TempSetObj := s\<rparr>)" for s
    unfolding comm by (rule Cons.IH)
  show ?case
  proof (cases a)
    case (ReadErr err)
    then show ?thesis by simp
  next
    case (ReadOk c)
    show ?thesis
    proof (cases "MustState c")
      case (Panics p)
      with ReadOk show ?thesis by simp
    next
      case (Returns e0)
      show ?thesis
      proof (cases "apply_transform v e0")
        case (Panics p)
        with ReadOk Returns show ?thesis by simp
      next
        case r2: (Returns res)
        obtain ignore entry where res: "res = (ignore, entry)" by (cases res)
        obtain key eo where k: "fst (entryToKey ext v entry) = (key, eo)"
          by (cases "fst (entryToKey ext v entry)")
        have e1: "entryToKey ext (v\<lparr>StateReader := r\<rparr>) entry = ((key, eo), v\<lparr>StateReader := r\<rparr>)"
          using k by (simp add: entryToKey_StateReader)
        have e2: "entryToKey ext v entry = ((key, eo), v)"
          using k entryToKey_eq [of ext v entry] by simp
        show ?thesis
          using ReadOk Returns r2 res e1 e2 ih Cons.IH [of v]
          by (simp split: outcome.split prod.split option.split)
      qed
    qed
  qed
qed

text \<open>
  Claim C6. A record for which the transform function returns \<open>ignore = true\<close> can be
  put into the stream at any place or taken out of it: the results of \<open>Verify\<close>, the
  temporary set and the stored diagnosis are the same. Nothing is assumed about the
  encoding of the ignored record, so it is not fingerprinted, and the temporary set is
  the same, so nothing was removed for it.
\<close>

theorem Verify_skips_ignored:
  assumes "TransformFunction v = Some f" and "f d = Returns (True, d')"
  shows "observed (Verify ext (v\<lparr>StateReader := pre @ ReadOk (LedgerEntryState d) # post\<rparr>))
         = observed (Verify ext (v\<lparr>StateReader := pre @ post\<rparr>))"
  using ignored_skipped [OF assms] by (simp add: Verify_def)

text \<open>
  Claim C6 at one local record A and the stream A, D, where D is an account without
  master weight and signers, which the transform function ignores.
\<close>

theorem Verify_skips_ignored_witness:
  "TransformFunction (loaded_verifier [] [''A'']) = Some (transformEntry toy_externals)
   \<and> transformEntry toy_externals (account_entry [9] 0) = Returns (True, LedgerEntry_zero)
   \<and> observed (Verify toy_externals ((loaded_verifier [] [''A''])
        \<lparr>StateReader := [ReadOk (LedgerEntryState (account_entry [1] 1))]
            @ ReadOk (LedgerEntryState (account_entry [9] 0)) # []\<rparr>))
      = Returns ((True, None), \<lparr>m = Some Map.empty\<rparr>, None)
   \<and> observed (Verify toy_externals ((loaded_verifier [] [''A''])
        \<lparr>StateReader := [ReadOk (LedgerEntryState (account_entry [1] 1))] @ []\<rparr>))
      = Returns ((True, None), \<lparr>m = Some Map.empty\<rparr>, None)"
proof -
  have h1: "TransformFunction (loaded_verifier [] [''A'']) = Some (transformEntry toy_externals)"
    by (simp add: toy_defs)
  have h2: "transformEntry toy_externals (account_entry [9] 0) = Returns (True, LedgerEntry_zero)"
    by (simp add: toy_defs)
  have r: "observed (Verify toy_externals ((loaded_verifier [] [''A''])
        \<lparr>StateReader := [ReadOk (LedgerEntryState (account_entry [1] 1))] @ []\<rparr>))
      = Returns ((True, None), \<lparr>m = Some Map.empty\<rparr>, None)"
    by (simp add: toy_defs)
  from Verify_skips_ignored [OF h1 h2, of toy_externals "[ReadOk (LedgerEntryState (account_entry [1] 1))]" "[]"]
    h1 h2 r show ?thesis by simp
qed

end
